theory Spec2Isabelle
  imports
    Complex_Main
    "HOL-Library.Word"
    "HOL-Library.Multiset"
    "HOL-Library.Char_ord"
    "HOL-Library.List_Lexorder"
    "HOL-Library.Product_Lexorder"
begin

section \<open>The show-cleaning script\<close>

text \<open>
  \<^verbatim>\<open>show_cleaning.py\<close> is one straight-line script: it reads \<^verbatim>\<open>shows.csv\<close> into a
  DataFrame, drops the rows without an episode count, drops repeated titles, sorts by
  year and title, renumbers the rows, converts the episode counts to integers, computes
  two totals and a per-year table, and plots the table.  Every step is a call of a pandas,
  numpy or Python primitive; each primitive is modelled below by what it does to the three
  columns the script touches, and the script is the composition of these models in the
  order of the source lines.

  The model covers frames whose \<^verbatim>\<open>title\<close> column holds text, whose \<^verbatim>\<open>year\<close> column
  holds integers, and whose \<^verbatim>\<open>episodes\<close> column holds integers, floats, booleans or
  text; any cell of the three columns can be missing.  A title is a list of bytes (UTF-8),
  whose lexicographic order is the order of Python strings.  \<^verbatim>\<open>int\<close> is the 64-bit
  integer type, as it is for numpy on 64-bit Linux and macOS.  The specification's data
  model is narrower: there every record has a title and a year, and only the episode
  count can be missing.
\<close>

subsection \<open>Data\<close>

text \<open>
  A cell of the \<^verbatim>\<open>episodes\<close> column as the CSV reader delivers it: a missing value
  (an empty field), a 64-bit integer, a finite floating-point number (every finite double
  is a rational), an infinity, a boolean (a column of \<^verbatim>\<open>True\<close> and \<^verbatim>\<open>False\<close> is read
  as booleans), or text that the reader could not parse otherwise.  Text in a cell is a
  Python string, given by the list of its code points.
\<close>

datatype cell = NaN | IntV "64 word" | FloatV rat | InfV | BoolV bool | StrV "nat list"

text \<open>The code points of a literal written in ASCII.\<close>

definition ascii :: "string \<Rightarrow> nat list" where
  "ascii s = map of_char s"

text \<open>
  A row carries the three columns used by the script.  A title or a year can be missing
  in the file as well (the reader turns an empty field of any column into a missing
  value), hence the options.  The type parameter is the type of the \<^verbatim>\<open>episodes\<close>
  column: \<^typ>\<open>cell\<close> as read, \<^typ>\<open>64 word\<close> after \<^verbatim>\<open>astype(int)\<close>.
\<close>

datatype 'e row = Row (title: "string option") (year: "int option") (episodes: 'e)

text \<open>A DataFrame: the rows in positional order, each with its index label.\<close>

type_synonym 'e frame = "(nat \<times> 'e row) list"

text \<open>
  The errors a run can end with.  \<open>ArrayTooLarge\<close> is numpy's refusal to build an array
  that does not fit the machine (Python reports a \<^verbatim>\<open>MemoryError\<close> or, for the largest
  sizes, a \<^verbatim>\<open>ValueError\<close>).
\<close>

datatype error = ValueError | IntCastingNaNError | OverflowError | ArrayTooLarge

subsection \<open>Line 10: loading\<close>

text \<open>
  Parsing the file is outside the model; \<open>read_csv\<close> takes the parsed rows and gives
  them the default index \<open>0, 1, 2, \<dots>\<close>.
\<close>

definition read_csv :: "cell row list \<Rightarrow> cell frame" where
  "read_csv rows = enumerate 0 rows"

subsection \<open>Line 16: \<^verbatim>\<open>dropna(subset=["episodes"])\<close>\<close>

fun isna :: "cell \<Rightarrow> bool" where
  "isna NaN = True"
| "isna (IntV i) = False"
| "isna (FloatV q) = False"
| "isna InfV = False"
| "isna (BoolV b) = False"
| "isna (StrV s) = False"

definition dropna_episodes :: "cell frame \<Rightarrow> cell frame" where
  "dropna_episodes df = filter (\<lambda>(i, r). \<not> isna (episodes r)) df"

subsection \<open>Line 23: \<^verbatim>\<open>drop_duplicates(subset=["title"], keep="first")\<close>\<close>

text \<open>
  Rows are visited in positional order; a row is dropped when its title has been seen
  on an earlier row.  Missing titles count as equal to each other.
\<close>

fun drop_duplicates_from :: "string option list \<Rightarrow> 'e frame \<Rightarrow> 'e frame" where
  "drop_duplicates_from seen [] = []"
| "drop_duplicates_from seen ((i, r) # df) =
     (if title r \<in> set seen then drop_duplicates_from seen df
      else (i, r) # drop_duplicates_from (title r # seen) df)"

definition drop_duplicates_title :: "'e frame \<Rightarrow> 'e frame" where
  "drop_duplicates_title df = drop_duplicates_from [] df"

subsection \<open>Line 30: \<^verbatim>\<open>sort_values(by=["year", "title"], ascending=[True, True])\<close>\<close>

text \<open>
  Each sort key puts its missing values last (\<^verbatim>\<open>na_position="last"\<close> is the default):
  a key value is paired with a flag that is \<open>True\<close> when it is missing, and pairs are
  compared lexicographically with \<open>False < True\<close>.  Years compare as integers, titles as
  Python strings, character by character.  The sort is stable.
\<close>

definition na_last :: "'a \<Rightarrow> 'a option \<Rightarrow> bool \<times> 'a" where
  "na_last d v = (case v of None \<Rightarrow> (True, d) | Some x \<Rightarrow> (False, x))"

definition sort_values_key :: "'e row \<Rightarrow> (bool \<times> int) \<times> (bool \<times> string)" where
  "sort_values_key r = (na_last 0 (year r), na_last [] (title r))"

definition sort_values :: "'e frame \<Rightarrow> 'e frame" where
  "sort_values df = sort_key (\<lambda>(i, r). sort_values_key r) df"

subsection \<open>Line 36: \<^verbatim>\<open>reset_index(drop=True)\<close>\<close>

definition reset_index :: "'e frame \<Rightarrow> 'e frame" where
  "reset_index df = enumerate 0 (map snd df)"

subsection \<open>Line 42: \<^verbatim>\<open>astype(int)\<close>\<close>

text \<open>
  Text is converted as \<^verbatim>\<open>int(s)\<close> of CPython 3.11 does in base 10; its character
  tables are those of Unicode 14.0.

  First the characters from code point 127 on are replaced: white space by a blank, a
  decimal digit of any script by the ASCII digit of its value; at the first character
  that is neither, the text is cut and a question mark put in its place.
\<close>

definition unicode_space :: "nat \<Rightarrow> bool" where
  "unicode_space c =
     (c \<in> set [0x85, 0xA0, 0x1680, 0x2028, 0x2029, 0x202F, 0x205F, 0x3000] \<or>
      (0x2000 \<le> c \<and> c \<le> 0x200A))"

text \<open>
  The digit zero of every script that has decimal digits, ASCII apart; the digits one to
  nine follow their zero.
\<close>

definition decimal_zeros :: "nat list" where
  "decimal_zeros =
     [1632, 1776, 1984, 2406, 2534, 2662, 2790, 2918, 3046, 3174, 3302, 3430, 3558, 3664,
      3792, 3872, 4160, 4240, 6112, 6160, 6470, 6608, 6784, 6800, 6992, 7088, 7232, 7248,
      42528, 43216, 43264, 43472, 43504, 43600, 44016, 65296, 66720, 68912, 69734, 69872,
      69942, 70096, 70384, 70736, 70864, 71248, 71360, 71472, 71904, 72016, 72784, 73040,
      73120, 92768, 92864, 93008, 120782, 120792, 120802, 120812, 120822, 123200, 123632,
      125264, 130032]"

definition unicode_decimal :: "nat \<Rightarrow> nat option" where
  "unicode_decimal c =
     map_option (\<lambda>z. c - z) (find (\<lambda>z. z \<le> c \<and> c < z + 10) decimal_zeros)"

fun to_ascii :: "nat list \<Rightarrow> nat list" where
  "to_ascii [] = []"
| "to_ascii (c # cs) =
     (if c < 127 then c # to_ascii cs
      else if unicode_space c then 32 # to_ascii cs
      else (case unicode_decimal c of
              None \<Rightarrow> [63]
            | Some d \<Rightarrow> (48 + d) # to_ascii cs))"

text \<open>
  Then the ASCII text is read: white space (blank, tab, line feed, vertical tab, form
  feed, carriage return), one optional sign, decimal digits, white space, and nothing
  else.  The digits start with a digit; a single underscore may stand between two
  digits.  \<open>digits\<close> gives the value read, the number of digits, and what follows
  them.  A numeral of more than 4300 digits is refused (the default limit of the
  interpreter).
\<close>

definition is_space :: "nat \<Rightarrow> bool" where
  "is_space c = (c = 32 \<or> (9 \<le> c \<and> c \<le> 13))"

definition is_digit :: "nat \<Rightarrow> bool" where
  "is_digit c = (48 \<le> c \<and> c \<le> 57)"

definition digit_val :: "nat \<Rightarrow> int" where
  "digit_val c = int c - 48"

fun digits :: "int \<Rightarrow> nat \<Rightarrow> nat list \<Rightarrow> (int \<times> nat \<times> nat list) option" where
  "digits v n [] = Some (v, n, [])"
| "digits v n [c] =
     (if is_digit c then Some (10 * v + digit_val c, Suc n, [])
      else if c = 95 then None
      else Some (v, n, [c]))"
| "digits v n (c # d # cs) =
     (if is_digit c then digits (10 * v + digit_val c) (Suc n) (d # cs)
      else if c = 95 then
        (if is_digit d then digits (10 * v + digit_val d) (Suc n) cs else None)
      else Some (v, n, c # d # cs))"

definition max_str_digits :: nat where
  "max_str_digits = 4300"

definition unsigned :: "nat list \<Rightarrow> int option" where
  "unsigned s =
     (case s of
        [] \<Rightarrow> None
      | c # cs \<Rightarrow>
          if is_digit c then
            (case digits 0 0 (c # cs) of
               None \<Rightarrow> None
             | Some (v, n, rest) \<Rightarrow>
                 if max_str_digits < n then None
                 else if list_all is_space rest then Some v
                 else None)
          else None)"

definition py_int :: "nat list \<Rightarrow> int option" where
  "py_int s =
     (case dropWhile is_space (to_ascii s) of
        [] \<Rightarrow> None
      | c # cs \<Rightarrow>
          if c = 45 then map_option uminus (unsigned cs)
          else if c = 43 then unsigned cs
          else unsigned (c # cs))"

definition int64_min :: int where
  "int64_min = - (2 ^ 63)"

definition int64_max :: int where
  "int64_max = 2 ^ 63 - 1"

definition in_int64 :: "int \<Rightarrow> bool" where
  "in_int64 n = (int64_min \<le> n \<and> n \<le> int64_max)"

text \<open>A float is cut towards zero.\<close>

definition trunc :: "rat \<Rightarrow> int" where
  "trunc q = (if 0 \<le> q then \<lfloor>q\<rfloor> else \<lceil>q\<rceil>)"

text \<open>
  The conversion of one cell.  Missing and infinite values are refused; a float is cut
  towards zero (a cut value outside the 64-bit range is cast by the processor, which on
  x86-64 gives the smallest 64-bit integer); \<^verbatim>\<open>True\<close> becomes 1 and \<^verbatim>\<open>False\<close> becomes
  0; text goes through \<open>py_int\<close>, and an integer that does not fit 64 bits is refused.
\<close>

fun astype_int_cell :: "cell \<Rightarrow> error + 64 word" where
  "astype_int_cell NaN = Inl IntCastingNaNError"
| "astype_int_cell InfV = Inl IntCastingNaNError"
| "astype_int_cell (IntV i) = Inr i"
| "astype_int_cell (BoolV b) = Inr (if b then 1 else 0)"
| "astype_int_cell (FloatV q) =
     Inr (if in_int64 (trunc q) then word_of_int (trunc q) else word_of_int int64_min)"
| "astype_int_cell (StrV s) =
     (case py_int s of
        None \<Rightarrow> Inl ValueError
      | Some n \<Rightarrow> if in_int64 n then Inr (word_of_int n) else Inl OverflowError)"

text \<open>The column is converted row by row; the first refusal aborts the script.\<close>

fun astype_int :: "cell frame \<Rightarrow> error + (64 word) frame" where
  "astype_int [] = Inr []"
| "astype_int ((i, r) # df) =
     (case astype_int_cell (episodes r) of
        Inl e \<Rightarrow> Inl e
      | Inr v \<Rightarrow>
          (case astype_int df of
             Inl e \<Rightarrow> Inl e
           | Inr df' \<Rightarrow> Inr ((i, Row (title r) (year r) v) # df')))"

subsection \<open>Lines 10 to 42: the cleaning pipeline\<close>

definition clean_shows :: "cell row list \<Rightarrow> cell frame" where
  "clean_shows rows = dropna_episodes (read_csv rows)"

definition removed_duplicates :: "cell row list \<Rightarrow> cell frame" where
  "removed_duplicates rows = drop_duplicates_title (clean_shows rows)"

text \<open>\<open>sorted_shows\<close> is the variable of that name after line 36.\<close>

definition sorted_shows :: "cell row list \<Rightarrow> cell frame" where
  "sorted_shows rows = reset_index (sort_values (removed_duplicates rows))"

text \<open>\<open>cleaned\<close> is the same variable after line 42, or the error raised there.\<close>

definition cleaned :: "cell row list \<Rightarrow> error + (64 word) frame" where
  "cleaned rows = astype_int (sorted_shows rows)"

subsection \<open>Lines 47 to 63: the aggregates\<close>

text \<open>\<^verbatim>\<open>nunique()\<close> counts the distinct values of a column and leaves missing values out.\<close>

definition total_shows_overall :: "'e frame \<Rightarrow> nat" where
  "total_shows_overall df = length (remdups (List.map_filter (\<lambda>(i, r). title r) df))"

text \<open>\<^verbatim>\<open>sum()\<close> of a 64-bit integer column adds in 64-bit arithmetic.\<close>

definition total_episodes_overall :: "(64 word) frame \<Rightarrow> 64 word" where
  "total_episodes_overall df = sum_list (map (\<lambda>(i, r). episodes r) df)"

text \<open>
  \<^verbatim>\<open>groupby("year").size().reset_index(name="shows")\<close>: one entry per year that occurs,
  in ascending order of the years, with the number of rows of that year.  Rows whose year
  is missing belong to no group.
\<close>

definition num :: "'e frame \<Rightarrow> (int \<times> nat) list" where
  "num df =
     (let ys = List.map_filter (\<lambda>(i, r). year r) df
      in map (\<lambda>y. (y, count_list ys y)) (sort (remdups ys)))"

definition years :: "'e frame \<Rightarrow> int list" where
  "years df = map fst (num df)"

definition counts :: "'e frame \<Rightarrow> nat list" where
  "counts df = map snd (num df)"

subsection \<open>Lines 67 to 123: the chart\<close>

text \<open>Python's \<^verbatim>\<open>min\<close> and \<^verbatim>\<open>max\<close> raise \<^verbatim>\<open>ValueError\<close> on an empty list.\<close>

fun py_min :: "int list \<Rightarrow> error + int" where
  "py_min [] = Inl ValueError"
| "py_min (x # xs) = Inr (fold min xs x)"

fun py_max :: "int list \<Rightarrow> error + int" where
  "py_max [] = Inl ValueError"
| "py_max (x # xs) = Inr (fold max xs x)"

text \<open>
  \<^verbatim>\<open>np.arange(start, stop, step)\<close> for a positive step.  The array has one element for
  every multiple of the step below \<open>stop - start\<close>; numpy refuses to build it when it does
  not fit the machine.  How many elements fit is not in the source: \<open>room\<close>, the largest
  number of elements the machine of the run can hold, is a parameter.
\<close>

definition arange :: "nat \<Rightarrow> int \<Rightarrow> int \<Rightarrow> int \<Rightarrow> error + int list" where
  "arange room start stop step =
     (let n = nat ((stop - start + step - 1) div step)
      in if room < n then Inl ArrayTooLarge
         else Inr (map (\<lambda>k. start + step * int k) [0 ..< n]))"

text \<open>Line 118: \<^verbatim>\<open>np.arange(min(years), max(years)+1, 5)\<close>.\<close>

definition xticks :: "nat \<Rightarrow> int list \<Rightarrow> error + int list" where
  "xticks room ys =
     (case py_min ys of
        Inl e \<Rightarrow> Inl e
      | Inr lo \<Rightarrow>
          (case py_max ys of
             Inl e \<Rightarrow> Inl e
           | Inr hi \<Rightarrow> arange room lo (hi + 1) 5))"

text \<open>
  What a run of the script has produced when \<^verbatim>\<open>plt.show()\<close> is reached: the cleaned
  frame, the text of the summary box, the plotted points with their annotations, and the
  tick positions.
\<close>

record chart =
  frame_of :: "(64 word) frame"
  total_shows :: nat
  total_episodes :: "64 word"
  points :: "(int \<times> nat) list"
  ticks :: "int list"

definition script :: "nat \<Rightarrow> cell row list \<Rightarrow> error + chart" where
  "script room rows =
     (case cleaned rows of
        Inl e \<Rightarrow> Inl e
      | Inr df \<Rightarrow>
          (case xticks room (years df) of
             Inl e \<Rightarrow> Inl e
           | Inr ts \<Rightarrow>
               Inr \<lparr>frame_of = df,
                    total_shows = total_shows_overall df,
                    total_episodes = total_episodes_overall df,
                    points = zip (years df) (counts df),
                    ticks = ts\<rparr>))"

subsection \<open>Notions used in the statements\<close>

text \<open>
  \<open>converted r o'\<close>: the cleaned row \<open>o'\<close> is the input row \<open>r\<close> with its title and year
  untouched and its episode count converted by \<^verbatim>\<open>astype(int)\<close>.
\<close>

definition converted :: "cell row \<Rightarrow> (64 word) row \<Rightarrow> bool" where
  "converted r o' =
     (title o' = title r \<and> year o' = year r \<and> astype_int_cell (episodes r) = Inr (episodes o'))"

text \<open>
  The order that \<open>sort_values_key\<close> induces, written out on the columns: a year comes
  before a later year and before a missing year; a title comes before a later title and
  before a missing title.
\<close>

fun year_before :: "int option \<Rightarrow> int option \<Rightarrow> bool" where
  "year_before (Some a) (Some b) = (a < b)"
| "year_before (Some a) None = True"
| "year_before None y = False"

fun title_upto :: "string option \<Rightarrow> string option \<Rightarrow> bool" where
  "title_upto (Some a) (Some b) = (a \<le> b)"
| "title_upto t None = True"
| "title_upto None (Some b) = False"

definition in_order :: "'e row \<Rightarrow> 'e row \<Rightarrow> bool" where
  "in_order r s =
     (year_before (year r) (year s) \<or> (year r = year s \<and> title_upto (title r) (title s)))"

text \<open>
  The comparison of two consecutive records in the words of the specification,
  \<open>r.year < s.year\<close>, or \<open>r.year = s.year\<close> and \<open>r.title \<le> s.title\<close>.  A comparison with
  a missing value is false, as it is for the values pandas stores.
\<close>

definition claimed_order :: "'e row \<Rightarrow> 'e row \<Rightarrow> bool" where
  "claimed_order r s =
     (case (year r, year s) of
        (Some a, Some b) \<Rightarrow>
          a < b \<or> (a = b \<and> (case (title r, title s) of (Some t, Some u) \<Rightarrow> t \<le> u | _ \<Rightarrow> False))
      | _ \<Rightarrow> False)"

text \<open>
  The first input row bearing a title, in the words of the specification, and the first
  one among the rows that have an episode count.
\<close>

definition first_with_title :: "string option \<Rightarrow> 'e row list \<Rightarrow> 'e row option" where
  "first_with_title t rows = find (\<lambda>r. title r = t) rows"

definition first_counted_with_title :: "string option \<Rightarrow> cell row list \<Rightarrow> cell row option" where
  "first_counted_with_title t rows = find (\<lambda>r. title r = t \<and> \<not> isna (episodes r)) rows"

text \<open>
  The rows of a cleaned frame taken as input again (their episode counts are now 64-bit
  integers), and the frame they form with their labels kept.
\<close>

definition reload :: "(64 word) frame \<Rightarrow> cell row list" where
  "reload out = map (map_row IntV) (map snd out)"

definition as_read :: "(64 word) frame \<Rightarrow> cell frame" where
  "as_read out = map (\<lambda>(i, r). (i, map_row IntV r)) out"

text \<open>The years of a frame that are not missing, row by row.\<close>

definition present_years :: "'e frame \<Rightarrow> int list" where
  "present_years df = List.map_filter (\<lambda>(i, r). year r) df"

section \<open>Properties of the steps\<close>

subsection \<open>Reading integers from text\<close>

text \<open>
  Some texts and what \<open>py_int\<close> makes of them: Arabic-Indic digits and a no-break space
  are read; the control character 28, a superscript two, a doubled or trailing
  underscore and a decimal point are not.
\<close>

lemmas py_int_defs = py_int_def unsigned_def unicode_decimal_def decimal_zeros_def
  unicode_space_def is_space_def is_digit_def digit_val_def max_str_digits_def ascii_def

lemma py_int_arabic_indic: "py_int [1633, 1634] = Some 12"
  by (simp add: py_int_defs)

lemma py_int_no_break_space: "py_int (160 # ascii ''12'') = Some 12"
  by (simp add: py_int_defs)

lemma py_int_signed_underscore: "py_int (ascii '' -1_000 '') = Some (- 1000)"
  by (simp add: py_int_defs)

lemma py_int_control_character: "py_int (28 # ascii ''12'') = None"
  by (simp add: py_int_defs)

lemma py_int_superscript: "py_int [178] = None"
  by (simp add: py_int_defs)

lemma py_int_double_underscore: "py_int (ascii ''1__0'') = None"
  by (simp add: py_int_defs)

lemma py_int_trailing_underscore: "py_int (ascii ''10_'') = None"
  by (simp add: py_int_defs)

lemma py_int_decimal_point: "py_int (ascii ''5.0'') = None"
  by (simp add: py_int_defs)

subsection \<open>The steps, one by one\<close>

lemma map_snd_read_csv: "map snd (read_csv rows) = rows"
  by (simp add: read_csv_def)

lemma map_fst_read_csv: "map fst (read_csv rows) = [0 ..< length rows]"
  by (simp add: read_csv_def)

lemma set_drop_duplicates_from: "set (drop_duplicates_from seen df) \<subseteq> set df"
  by (induction seen df rule: drop_duplicates_from.induct) auto

lemma mset_drop_duplicates_from: "mset (drop_duplicates_from seen df) \<subseteq># mset df"
proof (induction seen df rule: drop_duplicates_from.induct)
  case (1 seen)
  show ?case by simp
next
  case (2 seen i r df)
  show ?case
  proof (cases "title r \<in> set seen")
    case True
    with 2 have "mset (drop_duplicates_from seen df) \<subseteq># mset df" by simp
    then have "mset (drop_duplicates_from seen df) \<subseteq># add_mset (i, r) (mset df)"
      by (rule subset_mset.order_trans) simp
    with True show ?thesis by simp
  next
    case False
    with 2 show ?thesis by simp
  qed
qed

lemma unseen_drop_duplicates_from:
  "(i, r) \<in> set (drop_duplicates_from seen df) \<Longrightarrow> title r \<notin> set seen"
  by (induction seen df rule: drop_duplicates_from.induct) (auto split: if_splits)

lemma distinct_drop_duplicates_from:
  "distinct (map (\<lambda>(i, r). title r) (drop_duplicates_from seen df))"
  by (induction seen df rule: drop_duplicates_from.induct)
     (auto dest: unseen_drop_duplicates_from)

lemma drop_duplicates_from_id:
  "distinct (map (\<lambda>(i, r). title r) df) \<Longrightarrow> (\<forall>(i, r) \<in> set df. title r \<notin> set seen)
   \<Longrightarrow> drop_duplicates_from seen df = df"
proof (induction seen df rule: drop_duplicates_from.induct)
  case (1 seen)
  show ?case by simp
next
  case (2 seen i r df)
  from "2.prems" have fresh: "title r \<notin> set seen"
    and rest: "\<forall>(j, s) \<in> set df. title s \<notin> set (title r # seen)"
    and dist: "distinct (map (\<lambda>(i, r). title r) df)"
    by (auto simp: image_iff)
  from fresh "2.IH"(2) [OF fresh dist rest] show ?case by simp
qed

lemma first_drop_duplicates_from:
  "(i, r) \<in> set (drop_duplicates_from seen df)
   \<Longrightarrow> find (\<lambda>(j, s). title s = title r) df = Some (i, r)"
  by (induction seen df rule: drop_duplicates_from.induct)
     (auto split: if_splits dest: unseen_drop_duplicates_from)

lemma sorted_sort_values:
  "sorted (map (\<lambda>(i, r). sort_values_key r) (sort_values df))"
  by (simp add: sort_values_def)

lemma mset_sort_values: "mset (sort_values df) = mset df"
  by (simp add: sort_values_def)

lemma set_sort_values: "set (sort_values df) = set df"
  by (simp add: sort_values_def)

lemma sort_values_id:
  "sorted (map (\<lambda>(i, r). sort_values_key r) df) \<Longrightarrow> sort_values df = df"
  by (simp add: sort_values_def sort_key_id_if_sorted)

lemma frame_eqI: "map fst df = map fst df' \<Longrightarrow> map snd df = map snd df' \<Longrightarrow> df = df'"
  by (metis zip_map_fst_snd)

lemma map_snd_reset_index: "map snd (reset_index df) = map snd df"
  by (simp add: reset_index_def)

lemma map_fst_reset_index: "map fst (reset_index df) = [0 ..< length df]"
  by (simp add: reset_index_def)

lemma reset_index_id: "map fst df = [0 ..< length df] \<Longrightarrow> reset_index df = df"
  by (rule frame_eqI) (simp_all add: reset_index_def)

lemma astype_int_converted:
  "astype_int df = Inr out \<Longrightarrow>
   map fst out = map fst df \<and> list_all2 converted (map snd df) (map snd out)"
proof (induction df arbitrary: out)
  case Nil
  then show ?case by simp
next
  case (Cons x df)
  obtain i r where x: "x = (i, r)" by (cases x)
  from Cons.prems obtain v out' where v: "astype_int_cell (episodes r) = Inr v"
    and out': "astype_int df = Inr out'" and out: "out = (i, Row (title r) (year r) v) # out'"
    by (auto simp: x split: sum.splits)
  from Cons.IH [OF out'] v show ?case by (simp add: x out converted_def)
qed

lemma converted_titles: "list_all2 converted rs os \<Longrightarrow> map title os = map title rs"
  by (induction rs os rule: list_all2_induct) (auto simp: converted_def)

lemma converted_keys:
  "list_all2 converted rs os \<Longrightarrow> map sort_values_key os = map sort_values_key rs"
  by (induction rs os rule: list_all2_induct) (auto simp: converted_def sort_values_key_def)

lemma converted_source:
  "list_all2 converted rs os \<Longrightarrow> o' \<in> set os \<Longrightarrow> \<exists>r \<in> set rs. converted r o'"
  by (induction rs os rule: list_all2_induct) auto

lemma astype_int_fails:
  "(i, r) \<in> set df \<Longrightarrow> astype_int_cell (episodes r) = Inl e \<Longrightarrow> \<exists>e'. astype_int df = Inl e'"
  by (induction df) (auto split: sum.splits)

lemma astype_int_IntV: "astype_int (map (\<lambda>(i, r). (i, map_row IntV r)) out) = Inr out"
proof (induction out)
  case Nil
  show ?case by simp
next
  case (Cons x out)
  obtain i r where x: "x = (i, r)" by (cases x)
  show ?case using Cons.IH by (cases r) (simp add: x)
qed

lemma key_le_in_order:
  "sort_values_key r \<le> sort_values_key s \<longleftrightarrow> in_order r s"
  by (cases "year r"; cases "year s"; cases "title r"; cases "title s")
     (auto simp: sort_values_key_def na_last_def in_order_def less_eq_prod_def)

lemma in_order_claimed:
  "year r \<noteq> None \<Longrightarrow> year s \<noteq> None \<Longrightarrow> title r \<noteq> None \<Longrightarrow> title s \<noteq> None
   \<Longrightarrow> in_order r s = claimed_order r s"
  by (auto simp: in_order_def claimed_order_def)

subsection \<open>The pipeline\<close>

lemma rows_sorted_shows:
  "map snd (sorted_shows rows) = map snd (sort_values (removed_duplicates rows))"
  by (simp add: sorted_shows_def map_snd_reset_index)

lemma find_map_snd:
  "find (\<lambda>(i, r). P r) df = Some x \<Longrightarrow> find P (map snd df) = Some (snd x)"
  by (induction df) (auto split: if_splits)

lemma find_filter_conj:
  "find P (filter Q xs) = find (\<lambda>x. P x \<and> Q x) xs"
  by (induction xs) auto

lemma set_removed_duplicates:
  "(i, r) \<in> set (removed_duplicates rows) \<Longrightarrow> r \<in> set rows \<and> \<not> isna (episodes r)"
proof -
  assume "(i, r) \<in> set (removed_duplicates rows)"
  then have "(i, r) \<in> set (clean_shows rows)"
    using set_drop_duplicates_from [of "[]" "clean_shows rows"]
    by (auto simp: removed_duplicates_def drop_duplicates_title_def)
  then have "(i, r) \<in> set (read_csv rows)" and "\<not> isna (episodes r)"
    by (auto simp: clean_shows_def dropna_episodes_def)
  moreover have "snd ` set (read_csv rows) = set rows"
    using map_snd_read_csv [of rows] by (metis set_map)
  ultimately show ?thesis by force
qed

lemma mset_rows_removed_duplicates:
  "mset (map snd (removed_duplicates rows)) \<subseteq># mset rows"
proof -
  have "mset (removed_duplicates rows) \<subseteq># mset (clean_shows rows)"
    by (simp add: removed_duplicates_def drop_duplicates_title_def mset_drop_duplicates_from)
  also have "mset (clean_shows rows) \<subseteq># mset (read_csv rows)"
    by (simp add: clean_shows_def dropna_episodes_def)
  finally have "image_mset snd (mset (removed_duplicates rows)) \<subseteq># image_mset snd (mset (read_csv rows))"
    by (rule image_mset_subseteq_mono)
  then show ?thesis
    using map_snd_read_csv [of rows] by (metis mset_map)
qed

lemma first_removed_duplicates:
  assumes "(i, r) \<in> set (removed_duplicates rows)"
  shows "first_counted_with_title (title r) rows = Some r"
proof -
  from assms have "find (\<lambda>(j, s). title s = title r) (clean_shows rows) = Some (i, r)"
    by (simp add: removed_duplicates_def drop_duplicates_title_def first_drop_duplicates_from)
  then have "find (\<lambda>(j, s). title s = title r \<and> \<not> isna (episodes s)) (read_csv rows) = Some (i, r)"
    by (simp add: clean_shows_def dropna_episodes_def find_filter_conj case_prod_unfold)
  then have "find (\<lambda>s. title s = title r \<and> \<not> isna (episodes s)) (map snd (read_csv rows)) = Some r"
    using find_map_snd [of "\<lambda>s. title s = title r \<and> \<not> isna (episodes s)" "read_csv rows" "(i, r)"]
    by simp
  then show ?thesis
    by (simp only: map_snd_read_csv first_counted_with_title_def)
qed

lemma distinct_titles_sorted_shows:
  "distinct (map title (map snd (sorted_shows rows)))"
proof -
  let ?rd = "removed_duplicates rows"
  have "distinct (map (\<lambda>(i, r). title r) ?rd)"
    by (simp add: removed_duplicates_def drop_duplicates_title_def distinct_drop_duplicates_from)
  moreover have "mset (map (\<lambda>(i, r). title r) (sort_values ?rd)) = mset (map (\<lambda>(i, r). title r) ?rd)"
    by (simp add: mset_sort_values)
  ultimately have "distinct (map (\<lambda>(i, r). title r) (sort_values ?rd))"
    by (metis mset_eq_imp_distinct_iff)
  moreover have "map (\<lambda>(i, r). title r) (sort_values ?rd) = map title (map snd (sort_values ?rd))"
    by (simp add: case_prod_unfold)
  ultimately show ?thesis by (simp add: rows_sorted_shows)
qed

lemma sorted_keys_sorted_shows:
  "sorted (map sort_values_key (map snd (sorted_shows rows)))"
proof -
  have "map (\<lambda>(i, r). sort_values_key r) (sort_values (removed_duplicates rows))
        = map sort_values_key (map snd (sort_values (removed_duplicates rows)))"
    by (simp add: case_prod_unfold)
  with sorted_sort_values [of "removed_duplicates rows"] show ?thesis
    by (simp add: rows_sorted_shows)
qed

lemma no_na_sorted_shows:
  "r \<in> set (map snd (sorted_shows rows)) \<Longrightarrow> r \<in> set rows \<and> \<not> isna (episodes r)"
proof -
  assume "r \<in> set (map snd (sorted_shows rows))"
  then have "r \<in> snd ` set (sort_values (removed_duplicates rows))"
    by (simp add: rows_sorted_shows)
  then obtain i where "(i, r) \<in> set (removed_duplicates rows)"
    by (auto simp: set_sort_values)
  then show ?thesis by (rule set_removed_duplicates)
qed

lemma cleaned_converted:
  "cleaned rows = Inr out \<Longrightarrow>
   map fst out = [0 ..< length out] \<and> list_all2 converted (map snd (sorted_shows rows)) (map snd out)"
proof -
  assume "cleaned rows = Inr out"
  then have *: "map fst out = map fst (sorted_shows rows)"
    and **: "list_all2 converted (map snd (sorted_shows rows)) (map snd out)"
    using astype_int_converted [of "sorted_shows rows" out] by (simp_all add: cleaned_def)
  from ** have "length out = length (sorted_shows rows)"
    by (auto dest: list_all2_lengthD)
  with * ** show ?thesis
    by (simp add: sorted_shows_def map_fst_reset_index reset_index_def)
qed

lemma cleaned_invariants:
  assumes "cleaned rows = Inr out"
  shows "map fst out = [0 ..< length out]"
    and "distinct (map title (map snd out))"
    and "sorted (map sort_values_key (map snd out))"
proof -
  from cleaned_converted [OF assms]
  have conv: "list_all2 converted (map snd (sorted_shows rows)) (map snd out)" by simp
  from cleaned_converted [OF assms]
  show "map fst out = [0 ..< length out]" by simp
  from converted_titles [OF conv] distinct_titles_sorted_shows [of rows]
  show "distinct (map title (map snd out))" by (simp only:)
  from converted_keys [OF conv] sorted_keys_sorted_shows [of rows]
  show "sorted (map sort_values_key (map snd out))" by (simp only:)
qed

lemma source_row:
  assumes "cleaned rows = Inr out" and "o' \<in> set (map snd out)"
  shows "\<exists>i r. (i, r) \<in> set (removed_duplicates rows) \<and> converted r o'"
proof -
  from cleaned_converted [OF assms(1)]
  have "list_all2 converted (map snd (sorted_shows rows)) (map snd out)" by simp
  from converted_source [OF this assms(2)]
  obtain r where "r \<in> set (map snd (sorted_shows rows))" and c: "converted r o'" by blast
  then have "r \<in> snd ` set (sort_values (removed_duplicates rows))"
    by (simp add: rows_sorted_shows)
  then obtain i where "(i, r) \<in> set (removed_duplicates rows)"
    by (auto simp: set_sort_values)
  with c show ?thesis by blast
qed

subsection \<open>The aggregates\<close>

lemma map_filter_title:
  "List.map_filter (\<lambda>(i, r). title r) df = List.map_filter id (map title (map snd df))"
  by (induction df) (auto split: option.splits)

lemma distinct_map_filter_id: "distinct xs \<Longrightarrow> distinct (List.map_filter id xs)"
  by (auto simp: List.map_filter_def distinct_map inj_on_def)

lemma length_map_filter_id:
  "length (List.map_filter id xs) = length (filter (\<lambda>x. x \<noteq> None) xs)"
  by (induction xs) (auto split: option.splits)

lemma total_shows_distinct:
  "distinct (map title (map snd df)) \<Longrightarrow>
   total_shows_overall df = length (filter (\<lambda>r. title r \<noteq> None) (map snd df))"
proof -
  assume d: "distinct (map title (map snd df))"
  have "length (filter (\<lambda>x. x \<noteq> None) (map title (map snd df)))
        = length (filter (\<lambda>r. title r \<noteq> None) (map snd df))"
    by (simp add: filter_map comp_def del: map_map)
  with d show ?thesis
    by (simp add: total_shows_overall_def map_filter_title distinct_map_filter_id
        distinct_remdups_id length_map_filter_id del: map_map)
qed

lemma sint_sum_list:
  "in_int64 (sum_list (map sint ws)) \<Longrightarrow> sint (sum_list ws :: 64 word) = sum_list (map sint ws)"
proof -
  assume r: "in_int64 (sum_list (map sint ws))"
  have "word_of_int (sum_list (map sint ws)) = (sum_list ws :: 64 word)"
    by (induction ws) simp_all
  then have "sint (sum_list ws :: 64 word) = sint (word_of_int (sum_list (map sint ws)) :: 64 word)"
    by simp
  also have "\<dots> = sum_list (map sint ws)"
    using r by (simp add: in_int64_def int64_min_def int64_max_def signed_of_int signed_take_bit_int_eq_self)
  finally show ?thesis .
qed

lemma num_eq:
  "num df = map (\<lambda>y. (y, count_list (present_years df) y)) (sort (remdups (present_years df)))"
  by (simp add: num_def present_years_def Let_def)

lemma years_eq: "years df = sort (remdups (present_years df))"
  by (simp add: years_def num_eq comp_def)

lemma counts_eq:
  "counts df = map (count_list (present_years df)) (sort (remdups (present_years df)))"
  by (simp add: counts_def num_eq comp_def)

lemma sum_counts: "sum_list (counts df) = length (present_years df)"
proof -
  have "sum_list (counts df) = sum (count_list (present_years df)) (set (present_years df))"
    by (simp add: counts_eq sum_list_distinct_conv_sum_set)
  also have "\<dots> = length (present_years df)"
    by (rule sum_count_set) simp_all
  finally show ?thesis .
qed

lemma length_present_years:
  "length (present_years df) = length (filter (\<lambda>r. year r \<noteq> None) (map snd df))"
  by (induction df) (auto simp: present_years_def split: option.splits)

lemma set_present_years:
  "set (present_years df) = {y. \<exists>r \<in> set (map snd df). year r = Some y}"
  by (induction df) (auto simp: present_years_def split: option.splits)

lemma count_present_years:
  "count_list (present_years df) y = length (filter (\<lambda>r. year r = Some y) (map snd df))"
  by (induction df) (auto simp: present_years_def split: option.splits)

subsection \<open>A cleaned frame taken as input\<close>

lemma map_fst_as_read: "map fst (as_read out) = map fst out"
  by (simp add: as_read_def case_prod_unfold comp_def)

lemma map_snd_as_read: "map snd (as_read out) = map (map_row IntV) (map snd out)"
  by (simp add: as_read_def case_prod_unfold comp_def)

lemma length_as_read: "length (as_read out) = length out"
  by (simp add: as_read_def)

lemma read_csv_reload:
  assumes "map fst out = [0 ..< length out]"
  shows "read_csv (reload out) = as_read out"
proof (rule frame_eqI)
  show "map fst (read_csv (reload out)) = map fst (as_read out)"
    using assms by (simp add: map_fst_read_csv map_fst_as_read reload_def)
  show "map snd (read_csv (reload out)) = map snd (as_read out)"
    by (simp only: map_snd_read_csv map_snd_as_read reload_def)
qed

lemma dropna_as_read: "dropna_episodes (as_read out) = as_read out"
  unfolding dropna_episodes_def
proof (rule filter_True)
  show "\<forall>x \<in> set (as_read out). case x of (i, r) \<Rightarrow> \<not> isna (episodes r)"
  proof
    fix x
    assume "x \<in> set (as_read out)"
    then obtain i r where "x = (i, map_row IntV r)" by (auto simp: as_read_def)
    then show "case x of (i, r) \<Rightarrow> \<not> isna (episodes r)" by (cases r) simp
  qed
qed

lemma titles_as_read: "map (\<lambda>(i, r). title r) (as_read out) = map title (map snd out)"
proof -
  have "title (map_row IntV r) = title r" for r :: "(64 word) row" by (cases r) simp
  then show ?thesis by (simp add: as_read_def case_prod_unfold comp_def)
qed

lemma keys_as_read:
  "map (\<lambda>(i, r). sort_values_key r) (as_read out) = map sort_values_key (map snd out)"
proof -
  have "sort_values_key (map_row IntV r) = sort_values_key r" for r :: "(64 word) row"
    by (cases r) (simp add: sort_values_key_def)
  then show ?thesis by (simp add: as_read_def case_prod_unfold comp_def)
qed

lemma cleaned_fixpoint:
  assumes idx: "map fst out = [0 ..< length out]"
    and dist: "distinct (map title (map snd out))"
    and sorted: "sorted (map sort_values_key (map snd out))"
  shows "cleaned (reload out) = Inr out"
proof -
  have "clean_shows (reload out) = as_read out"
    by (simp only: clean_shows_def read_csv_reload [OF idx] dropna_as_read)
  moreover have "drop_duplicates_title (as_read out) = as_read out"
    unfolding drop_duplicates_title_def
    by (rule drop_duplicates_from_id) (simp_all add: titles_as_read dist del: map_map)
  ultimately have "removed_duplicates (reload out) = as_read out"
    by (simp only: removed_duplicates_def)
  moreover have "sort_values (as_read out) = as_read out"
    by (rule sort_values_id) (simp only: keys_as_read sorted)
  moreover have "reset_index (as_read out) = as_read out"
    by (rule reset_index_id) (simp only: map_fst_as_read idx length_as_read)
  ultimately have "sorted_shows (reload out) = as_read out"
    by (simp only: sorted_shows_def)
  then show ?thesis
    by (simp only: cleaned_def as_read_def astype_int_IntV)
qed

lemma total_shows_cleaned:
  assumes "cleaned rows = Inr out"
  shows "total_shows_overall out = length (filter (\<lambda>r. title r \<noteq> None) (map snd out))"
  using cleaned_invariants(2) [OF assms] by (rule total_shows_distinct)

lemma total_shows_all_titled:
  assumes "cleaned rows = Inr out" and "\<forall>r \<in> set (map snd out). title r \<noteq> None"
  shows "total_shows_overall out = length out"
proof -
  from assms(2) have "filter (\<lambda>r. title r \<noteq> None) (map snd out) = map snd out"
    by (intro filter_True) simp
  with total_shows_cleaned [OF assms(1)]
  have "total_shows_overall out = length (map snd out)" by (simp only:)
  then show ?thesis by (simp only: length_map)
qed

subsection \<open>Inputs in which every record has a title and a year\<close>

lemma cleaned_source:
  assumes "cleaned rows = Inr out" and "o' \<in> set (map snd out)"
  shows "\<exists>r \<in> set rows. title o' = title r \<and> year o' = year r"
proof -
  from source_row [OF assms]
  obtain i r where "(i, r) \<in> set (removed_duplicates rows)" and "converted r o'" by blast
  then have "r \<in> set rows" and "title o' = title r \<and> year o' = year r"
    by (simp_all add: set_removed_duplicates converted_def)
  then show ?thesis by blast
qed

lemma cleaned_titles_present:
  assumes "cleaned rows = Inr out" and "\<forall>r \<in> set rows. title r \<noteq> None"
    and "o' \<in> set (map snd out)"
  shows "title o' \<noteq> None"
  using cleaned_source [OF assms(1,3)] assms(2) by auto

lemma cleaned_keys_present:
  assumes "cleaned rows = Inr out" and "\<forall>r \<in> set rows. title r \<noteq> None \<and> year r \<noteq> None"
    and "o' \<in> set (map snd out)"
  shows "title o' \<noteq> None \<and> year o' \<noteq> None"
  using cleaned_source [OF assms(1,3)] assms(2) by auto

lemma total_shows_titled_input:
  assumes "cleaned rows = Inr out" and "\<forall>r \<in> set rows. title r \<noteq> None"
  shows "total_shows_overall out = length out"
  using assms cleaned_titles_present [OF assms] by (intro total_shows_all_titled) blast+

section \<open>The statements of the specification\<close>

subsection \<open>C1: no repeated title, no missing episode count\<close>

text \<open>
  C1.  Whenever the cleaning pipeline (lines 10 to 42) completes, no two records of its
  result share a title, no row that reaches the integer conversion has a missing episode
  count, and every record of the result is such a row with its count converted.  A
  missing title is a title like any other here: at most one record is without title.
\<close>

theorem cleaned_titles_distinct_episodes_present:
  assumes "cleaned rows = Inr out"
  shows "distinct (map title (map snd out)) \<and>
         (\<forall>r \<in> set (map snd (sorted_shows rows)). \<not> isna (episodes r)) \<and>
         list_all2 converted (map snd (sorted_shows rows)) (map snd out)"
proof -
  from cleaned_converted [OF assms]
  have conv: "list_all2 converted (map snd (sorted_shows rows)) (map snd out)" by simp
  have "\<forall>r \<in> set (map snd (sorted_shows rows)). \<not> isna (episodes r)"
    using no_na_sorted_shows by blast
  with cleaned_invariants(2) [OF assms] conv show ?thesis by blast
qed

theorem cleaned_titles_distinct_episodes_present_witness:
  "cleaned [Row (Some ''Lost'') (Some 2004) (FloatV (7 / 2)), Row (Some ''Lost'') (Some 1999) (FloatV 4),
            Row (Some ''Dark'') (Some 2017) NaN, Row (Some ''Alias'') (Some 2001) (FloatV 22)]
     = Inr [(0, Row (Some ''Alias'') (Some 2001) 22), (1, Row (Some ''Lost'') (Some 2004) 3)] \<and>
   distinct (map title (map snd [(0 :: nat, Row (Some ''Alias'') (Some 2001) (22 :: 64 word)),
                                 (1, Row (Some ''Lost'') (Some 2004) 3)]))"
proof -
  have h: "cleaned [Row (Some ''Lost'') (Some 2004) (FloatV (7 / 2)), Row (Some ''Lost'') (Some 1999) (FloatV 4),
                    Row (Some ''Dark'') (Some 2017) NaN, Row (Some ''Alias'') (Some 2001) (FloatV 22)]
     = Inr [(0, Row (Some ''Alias'') (Some 2001) 22), (1, Row (Some ''Lost'') (Some 2004) 3)]"
    by code_simp
  from cleaned_titles_distinct_episodes_present [OF h] h show ?thesis by blast
qed

subsection \<open>C2: the order of the cleaned records\<close>

text \<open>
  C2.  For every input in which each record has a title and a year, as in the data
  model of the specification: whenever the pipeline completes, the cleaned records are
  sorted by \<open>(year, title)\<close>, that is, for each record \<open>r\<close> of the result and the next
  one \<open>s\<close>, either \<open>r.year < s.year\<close>, or \<open>r.year = s.year\<close> and \<open>r.title \<le> s.title\<close>.
\<close>

theorem cleaned_sorted_by_year_title:
  assumes "cleaned rows = Inr out"
    and "\<forall>r \<in> set rows. title r \<noteq> None \<and> year r \<noteq> None"
  shows "\<forall>k. Suc k < length out \<longrightarrow> claimed_order (snd (out ! k)) (snd (out ! Suc k))"
proof (intro allI impI)
  fix k
  assume k: "Suc k < length out"
  from cleaned_invariants(3) [OF assms(1)]
  have "map sort_values_key (map snd out) ! k \<le> map sort_values_key (map snd out) ! Suc k"
    using k by (simp add: sorted_iff_nth_Suc del: map_map)
  then have ord: "in_order (snd (out ! k)) (snd (out ! Suc k))"
    using k by (simp add: key_le_in_order)
  from k have "snd (out ! k) \<in> set (map snd out)" and "snd (out ! Suc k) \<in> set (map snd out)"
    by simp_all
  from this [THEN cleaned_keys_present [OF assms]]
  have "title (snd (out ! k)) \<noteq> None \<and> year (snd (out ! k)) \<noteq> None"
    and "title (snd (out ! Suc k)) \<noteq> None \<and> year (snd (out ! Suc k)) \<noteq> None"
    by simp_all
  with ord show "claimed_order (snd (out ! k)) (snd (out ! Suc k))"
    using in_order_claimed [of "snd (out ! k)" "snd (out ! Suc k)"] by blast
qed

theorem cleaned_sorted_by_year_title_witness:
  "cleaned [Row (Some ''Zorro'') (Some 1990) (IntV 78), Row (Some ''Monk'') (Some 2002) (IntV 125),
            Row (Some ''Angel'') (Some 1990) (IntV 110)]
     = Inr [(0, Row (Some ''Angel'') (Some 1990) 110), (1, Row (Some ''Zorro'') (Some 1990) 78),
            (2, Row (Some ''Monk'') (Some 2002) 125)] \<and>
   claimed_order (Row (Some ''Angel'') (Some 1990) (110 :: 64 word)) (Row (Some ''Zorro'') (Some 1990) 78) \<and>
   claimed_order (Row (Some ''Zorro'') (Some 1990) (78 :: 64 word)) (Row (Some ''Monk'') (Some 2002) 125)"
proof -
  have h: "cleaned [Row (Some ''Zorro'') (Some 1990) (IntV 78), Row (Some ''Monk'') (Some 2002) (IntV 125),
                    Row (Some ''Angel'') (Some 1990) (IntV 110)]
     = Inr [(0, Row (Some ''Angel'') (Some 1990) 110), (1, Row (Some ''Zorro'') (Some 1990) 78),
            (2, Row (Some ''Monk'') (Some 2002) 125)]"
    by code_simp
  have p: "\<forall>r \<in> set [Row (Some ''Zorro'') (Some 1990) (IntV 78), Row (Some ''Monk'') (Some 2002) (IntV 125),
                       Row (Some ''Angel'') (Some 1990) (IntV 110)]. title r \<noteq> None \<and> year r \<noteq> None"
    by simp
  from cleaned_sorted_by_year_title [OF h p, rule_format, of 0]
       cleaned_sorted_by_year_title [OF h p, rule_format, of 1] h
  show ?thesis by simp
qed

subsection \<open>C3: the two totals\<close>

text \<open>
  C3, as written, equates \<open>total_episodes\<close> with the sum of the episode counts of the
  cleaned records.  It fails when that sum leaves the signed 64-bit range: the column is
  of type \<^verbatim>\<open>int64\<close>, \<^verbatim>\<open>sum()\<close> adds in that type, and the total wraps around.  Two
  shows with 9223372036854775807 episodes and 1 episode have 9223372036854775808
  episodes together; the total computed is -9223372036854775808.
\<close>

theorem episode_total_wraps_around:
  "cleaned [Row (Some ''Show A'') (Some 2020) (IntV 9223372036854775807),
            Row (Some ''Show B'') (Some 2021) (IntV 1)]
     = Inr [(0, Row (Some ''Show A'') (Some 2020) 9223372036854775807),
            (1, Row (Some ''Show B'') (Some 2021) 1)] \<and>
   sint (total_episodes_overall [(0, Row (Some ''Show A'') (Some 2020) 9223372036854775807),
                                 (1, Row (Some ''Show B'') (Some 2021) 1)])
     = - 9223372036854775808 \<and>
   sum_list (map sint (map episodes (map snd
       [(0 :: nat, Row (Some ''Show A'') (Some 2020) (9223372036854775807 :: 64 word)),
        (1, Row (Some ''Show B'') (Some 2021) 1)])))
     = 9223372036854775808"
  by code_simp

text \<open>
  C3, amended.  For every input in which each record has a title, as in the data model
  of the specification: whenever the pipeline completes, \<open>total_shows\<close> is the number of
  cleaned records, and \<open>total_episodes\<close> is the sum of the episode counts of the cleaned
  records taken in 64-bit arithmetic, which is their exact sum whenever the exact sum
  lies in the signed 64-bit range.
\<close>

theorem totals_of_cleaned:
  assumes "cleaned rows = Inr out"
    and "\<forall>r \<in> set rows. title r \<noteq> None"
  shows "total_shows_overall out = length out \<and>
         total_episodes_overall out = sum_list (map episodes (map snd out)) \<and>
         (in_int64 (sum_list (map sint (map episodes (map snd out)))) \<longrightarrow>
            sint (total_episodes_overall out) = sum_list (map sint (map episodes (map snd out))))"
proof -
  have te: "total_episodes_overall out = sum_list (map episodes (map snd out))"
    by (simp add: total_episodes_overall_def case_prod_unfold comp_def)
  have "sint (total_episodes_overall out) = sum_list (map sint (map episodes (map snd out)))"
    if "in_int64 (sum_list (map sint (map episodes (map snd out))))"
    using sint_sum_list [OF that] by (simp only: te)
  with total_shows_titled_input [OF assms] te
  show ?thesis by blast
qed

theorem totals_of_cleaned_witness:
  "cleaned [Row (Some ''Fargo'') (Some 2014) (IntV 51), Row (Some ''Fargo'') (Some 2014) (IntV 51),
            Row (Some ''Luther'') (Some 2010) (IntV 20)]
     = Inr [(0, Row (Some ''Luther'') (Some 2010) 20), (1, Row (Some ''Fargo'') (Some 2014) 51)] \<and>
   total_shows_overall [(0, Row (Some ''Luther'') (Some 2010) (20 :: 64 word)),
                        (1, Row (Some ''Fargo'') (Some 2014) 51)] = 2 \<and>
   sint (total_episodes_overall [(0, Row (Some ''Luther'') (Some 2010) 20),
                                 (1, Row (Some ''Fargo'') (Some 2014) 51)]) = 71"
proof -
  let ?out = "[(0 :: nat, Row (Some ''Luther'') (Some 2010) (20 :: 64 word)),
               (1, Row (Some ''Fargo'') (Some 2014) 51)]"
  have h: "cleaned [Row (Some ''Fargo'') (Some 2014) (IntV 51), Row (Some ''Fargo'') (Some 2014) (IntV 51),
                    Row (Some ''Luther'') (Some 2010) (IntV 20)] = Inr ?out"
    by code_simp
  have t: "\<forall>r \<in> set [Row (Some ''Fargo'') (Some 2014) (IntV 51), Row (Some ''Fargo'') (Some 2014) (IntV 51),
                       Row (Some ''Luther'') (Some 2010) (IntV 20)]. title r \<noteq> None" by simp
  have s: "sum_list (map sint (map episodes (map snd ?out))) = 71" by simp
  then have r: "in_int64 (sum_list (map sint (map episodes (map snd ?out))))"
    by (simp only: in_int64_def int64_min_def int64_max_def) simp
  from totals_of_cleaned [OF h t] r
  have "total_shows_overall ?out = length ?out"
    and "sint (total_episodes_overall ?out) = sum_list (map sint (map episodes (map snd ?out)))"
    by blast+
  with h s show ?thesis by simp
qed

subsection \<open>C4: the example of the specification\<close>

text \<open>
  C4.  On the four example rows the pipeline gives the two cleaned rows of the
  specification, \<open>total_shows = 2\<close>, \<open>total_episodes = 15\<close> and the yearly counts
  \<open>[(2019, 1), (2020, 1)]\<close>, and the script runs to its end on every machine that
  has room for the one tick of the chart.  The episode counts
  are taken as the specification writes them (\<open>10\<close>, none, \<open>10\<close>, \<open>5.0\<close>); a column with
  a missing value holds floats, and with \<open>10.0\<close> for \<open>10\<close> the cleaned rows are the same.
\<close>

theorem specification_example:
  "cleaned [Row (Some ''Show A'') (Some 2020) (IntV 10), Row (Some ''Show B'') (Some 2019) NaN,
            Row (Some ''Show A'') (Some 2020) (IntV 10), Row (Some ''Show C'') (Some 2019) (FloatV 5)]
     = Inr [(0, Row (Some ''Show C'') (Some 2019) 5), (1, Row (Some ''Show A'') (Some 2020) 10)] \<and>
   cleaned [Row (Some ''Show A'') (Some 2020) (FloatV 10), Row (Some ''Show B'') (Some 2019) NaN,
            Row (Some ''Show A'') (Some 2020) (FloatV 10), Row (Some ''Show C'') (Some 2019) (FloatV 5)]
     = Inr [(0, Row (Some ''Show C'') (Some 2019) 5), (1, Row (Some ''Show A'') (Some 2020) 10)] \<and>
   total_shows_overall [(0, Row (Some ''Show C'') (Some 2019) (5 :: 64 word)),
                        (1, Row (Some ''Show A'') (Some 2020) 10)] = 2 \<and>
   total_episodes_overall [(0, Row (Some ''Show C'') (Some 2019) 5),
                           (1, Row (Some ''Show A'') (Some 2020) 10)] = 15 \<and>
   num [(0, Row (Some ''Show C'') (Some 2019) (5 :: 64 word)),
        (1, Row (Some ''Show A'') (Some 2020) 10)] = [(2019, 1), (2020, 1)] \<and>
   script (Suc room)
          [Row (Some ''Show A'') (Some 2020) (IntV 10), Row (Some ''Show B'') (Some 2019) NaN,
           Row (Some ''Show A'') (Some 2020) (IntV 10), Row (Some ''Show C'') (Some 2019) (FloatV 5)]
     = Inr \<lparr>frame_of = [(0, Row (Some ''Show C'') (Some 2019) 5),
                        (1, Row (Some ''Show A'') (Some 2020) 10)],
            total_shows = 2, total_episodes = 15,
            points = [(2019, 1), (2020, 1)], ticks = [2019]\<rparr>"
  by code_simp

subsection \<open>C5: the yearly counts\<close>

text \<open>
  C5.  For every input in which each record has a title and a year, as in the data
  model of the specification: whenever the pipeline completes, the yearly counts sum to
  \<open>total_shows\<close>; the table has one entry for each year that occurs in the cleaned
  records, in strictly ascending order of the years, and the count of a year is the
  number of cleaned records of that year.
\<close>

theorem yearly_counts_sum:
  assumes "cleaned rows = Inr out"
    and "\<forall>r \<in> set rows. title r \<noteq> None \<and> year r \<noteq> None"
  shows "sum_list (counts out) = total_shows_overall out \<and>
         sorted_wrt (<) (years out) \<and>
         set (years out) = {y. \<exists>r \<in> set (map snd out). year r = Some y} \<and>
         num out = map (\<lambda>y. (y, length (filter (\<lambda>r. year r = Some y) (map snd out)))) (years out)"
proof -
  have s: "sum_list (counts out) = length (filter (\<lambda>r. year r \<noteq> None) (map snd out))"
    by (simp only: sum_counts length_present_years)
  have p: "\<forall>r \<in> set (map snd out). title r \<noteq> None \<and> year r \<noteq> None"
    using cleaned_keys_present [OF assms] by blast
  have t: "sum_list (counts out) = total_shows_overall out"
  proof -
    from p have "filter (\<lambda>r. year r \<noteq> None) (map snd out) = map snd out"
      by (intro filter_True) simp
    with s have "sum_list (counts out) = length (map snd out)" by (simp only:)
    moreover from p have "total_shows_overall out = length out"
      using total_shows_all_titled [OF assms(1)] by blast
    ultimately show ?thesis by (simp only: length_map)
  qed
  have o: "sorted_wrt (<) (years out)"
    by (simp add: years_eq strict_sorted_iff)
  have y: "set (years out) = {y. \<exists>r \<in> set (map snd out). year r = Some y}"
    by (simp only: years_eq set_sort set_remdups set_present_years)
  have n: "num out = map (\<lambda>y. (y, length (filter (\<lambda>r. year r = Some y) (map snd out)))) (years out)"
    by (simp only: num_eq years_eq count_present_years)
  from s t o y n show ?thesis by blast
qed

theorem yearly_counts_sum_witness:
  "cleaned [Row (Some ''Skins'') (Some 2007) (IntV 61), Row (Some ''Fringe'') (Some 2008) (IntV 100),
            Row (Some ''Chuck'') (Some 2007) (IntV 91)]
     = Inr [(0, Row (Some ''Chuck'') (Some 2007) 91), (1, Row (Some ''Skins'') (Some 2007) 61),
            (2, Row (Some ''Fringe'') (Some 2008) 100)] \<and>
   sum_list (counts [(0, Row (Some ''Chuck'') (Some 2007) (91 :: 64 word)),
                     (1, Row (Some ''Skins'') (Some 2007) 61),
                     (2, Row (Some ''Fringe'') (Some 2008) 100)])
     = total_shows_overall [(0, Row (Some ''Chuck'') (Some 2007) (91 :: 64 word)),
                            (1, Row (Some ''Skins'') (Some 2007) 61),
                            (2, Row (Some ''Fringe'') (Some 2008) 100)]"
proof -
  let ?out = "[(0 :: nat, Row (Some ''Chuck'') (Some 2007) (91 :: 64 word)),
               (1, Row (Some ''Skins'') (Some 2007) 61),
               (2, Row (Some ''Fringe'') (Some 2008) 100)]"
  have h: "cleaned [Row (Some ''Skins'') (Some 2007) (IntV 61), Row (Some ''Fringe'') (Some 2008) (IntV 100),
                    Row (Some ''Chuck'') (Some 2007) (IntV 91)] = Inr ?out"
    by code_simp
  have t: "\<forall>r \<in> set [Row (Some ''Skins'') (Some 2007) (IntV 61), Row (Some ''Fringe'') (Some 2008) (IntV 100),
                       Row (Some ''Chuck'') (Some 2007) (IntV 91)]. title r \<noteq> None \<and> year r \<noteq> None"
    by simp
  from yearly_counts_sum [OF h t]
  have "sum_list (counts ?out) = total_shows_overall ?out" by blast
  with h show ?thesis by (simp only:)
qed

subsection \<open>C6: cleaning a cleaned frame\<close>

text \<open>
  C6.  Whenever the pipeline completes, running it on the rows of its own result
  completes as well and gives that result again: the same records, in the same order,
  under the same labels.
\<close>

theorem cleaned_idempotent:
  assumes "cleaned rows = Inr out"
  shows "cleaned (reload out) = Inr out"
  using cleaned_invariants [OF assms] by (rule cleaned_fixpoint)

theorem cleaned_idempotent_witness:
  "cleaned [Row (Some ''Taxi'') (Some 1978) (StrV (ascii ''114'')), Row None (Some 1978) (StrV (ascii ''12'')),
            Row (Some ''Taxi'') (Some 1980) NaN, Row (Some ''Cheers'') None (StrV (ascii '' 275''))]
     = Inr [(0, Row (Some ''Taxi'') (Some 1978) 114), (1, Row None (Some 1978) 12),
            (2, Row (Some ''Cheers'') None 275)] \<and>
   cleaned (reload [(0, Row (Some ''Taxi'') (Some 1978) 114), (1, Row None (Some 1978) 12),
                    (2, Row (Some ''Cheers'') None 275)])
     = Inr [(0, Row (Some ''Taxi'') (Some 1978) 114), (1, Row None (Some 1978) 12),
            (2, Row (Some ''Cheers'') None 275)]"
proof -
  have h: "cleaned [Row (Some ''Taxi'') (Some 1978) (StrV (ascii ''114'')), Row None (Some 1978) (StrV (ascii ''12'')),
                    Row (Some ''Taxi'') (Some 1980) NaN, Row (Some ''Cheers'') None (StrV (ascii '' 275''))]
     = Inr [(0, Row (Some ''Taxi'') (Some 1978) 114), (1, Row None (Some 1978) 12),
            (2, Row (Some ''Cheers'') None 275)]"
    by code_simp
  from cleaned_idempotent [OF h] h show ?thesis by (simp only:)
qed

subsection \<open>C7: which record is kept for a title\<close>

text \<open>
  C7, as written, keeps for each title the first input record bearing it.  It fails
  when that record has no episode count: line 16 removes it before line 23 looks at the
  titles, and the record kept is a later one.
\<close>

theorem first_record_without_count_not_kept:
  "cleaned [Row (Some ''A'') (Some 2020) NaN, Row (Some ''A'') (Some 2021) (FloatV 5)]
     = Inr [(0, Row (Some ''A'') (Some 2021) 5)] \<and>
   first_with_title (Some ''A'')
       [Row (Some ''A'') (Some 2020) NaN, Row (Some ''A'') (Some 2021) (FloatV 5)]
     = Some (Row (Some ''A'') (Some 2020) NaN)"
  by code_simp

text \<open>
  C7, amended.  Whenever the pipeline completes, the record kept for a title of the
  result is the first input record bearing that title among the input records whose
  episode count is not missing (with that count converted).
\<close>

theorem first_counted_record_kept:
  assumes "cleaned rows = Inr out"
  shows "\<forall>o' \<in> set (map snd out).
           \<exists>r. first_counted_with_title (title o') rows = Some r \<and> converted r o'"
proof
  fix o'
  assume "o' \<in> set (map snd out)"
  from source_row [OF assms this]
  obtain i r where "(i, r) \<in> set (removed_duplicates rows)" and c: "converted r o'" by blast
  then have "first_counted_with_title (title r) rows = Some r"
    by (simp add: first_removed_duplicates)
  with c show "\<exists>r. first_counted_with_title (title o') rows = Some r \<and> converted r o'"
    by (auto simp: converted_def)
qed

theorem first_counted_record_kept_witness:
  "cleaned [Row (Some ''ER'') (Some 1994) NaN, Row (Some ''ER'') (Some 1995) (FloatV 331),
            Row (Some ''ER'') (Some 1996) (FloatV 22)]
     = Inr [(0, Row (Some ''ER'') (Some 1995) 331)] \<and>
   first_counted_with_title (Some ''ER'')
       [Row (Some ''ER'') (Some 1994) NaN, Row (Some ''ER'') (Some 1995) (FloatV 331),
        Row (Some ''ER'') (Some 1996) (FloatV 22)]
     = Some (Row (Some ''ER'') (Some 1995) (FloatV 331)) \<and>
   converted (Row (Some ''ER'') (Some 1995) (FloatV 331)) (Row (Some ''ER'') (Some 1995) 331)"
proof -
  let ?rows = "[Row (Some ''ER'') (Some 1994) NaN, Row (Some ''ER'') (Some 1995) (FloatV 331),
                Row (Some ''ER'') (Some 1996) (FloatV 22)]"
  let ?o = "Row (Some ''ER'') (Some 1995) (331 :: 64 word)"
  have h: "cleaned ?rows = Inr [(0, ?o)]" by code_simp
  from first_counted_record_kept [OF h]
  obtain r where f: "first_counted_with_title (title ?o) ?rows = Some r" and c: "converted r ?o"
    by auto
  have "first_counted_with_title (title ?o) ?rows = Some (Row (Some ''ER'') (Some 1995) (FloatV 331))"
    by code_simp
  with f c h show ?thesis by simp
qed

subsection \<open>C8: the empty input\<close>

text \<open>
  C8 asks that, on an input without rows, the chart code notices the empty table before
  it takes the smallest and the largest year.  The script does not: the cleaned frame is
  empty and the aggregates are \<open>0\<close>, \<open>0\<close> and \<open>[]\<close> as the statement says, but line 118
  then calls \<^verbatim>\<open>min\<close> on the empty list of years, which raises, and the run ends there.
\<close>

theorem empty_input_reaches_min:
  "cleaned [] = Inr [] \<and>
   total_shows_overall ([] :: (64 word) frame) = 0 \<and>
   total_episodes_overall [] = 0 \<and>
   num ([] :: (64 word) frame) = [] \<and>
   xticks room (years ([] :: (64 word) frame)) = Inl ValueError \<and>
   script room [] = Inl ValueError"
  by code_simp

subsection \<open>C9: episode counts that are not numbers\<close>

text \<open>
  C9, as written, has every value that is not a number raise at the integer conversion
  and never become zero.  It fails for booleans: a column of \<^verbatim>\<open>True\<close> and \<^verbatim>\<open>False\<close>
  reaches line 42 and is converted without an error, \<^verbatim>\<open>False\<close> to 0 and \<^verbatim>\<open>True\<close> to
  1, and the script runs to its end.
\<close>

theorem boolean_count_becomes_zero:
  "cleaned [Row (Some ''Show A'') (Some 2020) (BoolV False),
            Row (Some ''Show B'') (Some 2021) (BoolV True)]
     = Inr [(0, Row (Some ''Show A'') (Some 2020) 0), (1, Row (Some ''Show B'') (Some 2021) 1)] \<and>
   script 1000 [Row (Some ''Show A'') (Some 2020) (BoolV False),
                Row (Some ''Show B'') (Some 2021) (BoolV True)]
     = Inr \<lparr>frame_of = [(0, Row (Some ''Show A'') (Some 2020) 0),
                        (1, Row (Some ''Show B'') (Some 2021) 1)],
            total_shows = 2, total_episodes = 1,
            points = [(2020, 1), (2021, 1)], ticks = [2020]\<rparr>"
  by code_simp

text \<open>
  C9, amended.  If a row that reaches the integer conversion has text in its
  \<^verbatim>\<open>episodes\<close> cell, and the text is not an integer literal (\<^verbatim>\<open>int()\<close> rejects it),
  then the conversion raises, no cleaned frame is produced (so no count is turned into
  zero or into anything else), and the script ends with that error.  A boolean is not
  refused: \<^verbatim>\<open>True\<close> is converted to 1 and \<^verbatim>\<open>False\<close> to 0.
\<close>

theorem non_numeric_text_raises:
  assumes "(i, r) \<in> set (sorted_shows rows)" and "episodes r = StrV s" and "py_int s = None"
  shows "(\<exists>e. cleaned rows = Inl e \<and> script room rows = Inl e) \<and>
         astype_int_cell (BoolV b) = Inr (if b then 1 else 0)"
proof -
  from assms(2,3) have "astype_int_cell (episodes r) = Inl ValueError" by simp
  from astype_int_fails [OF assms(1) this]
  obtain e where "cleaned rows = Inl e" by (auto simp: cleaned_def)
  then show ?thesis by (simp add: script_def)
qed

theorem non_numeric_text_raises_witness:
  "(1, Row (Some ''Bones'') (Some 2005) (StrV (ascii ''unknown'')))
     \<in> set (sorted_shows [Row (Some ''Bones'') (Some 2005) (StrV (ascii ''unknown'')),
                           Row (Some ''House'') (Some 2004) (StrV (ascii ''177''))]) \<and>
   py_int (ascii ''unknown'') = None \<and>
   cleaned [Row (Some ''Bones'') (Some 2005) (StrV (ascii ''unknown'')),
            Row (Some ''House'') (Some 2004) (StrV (ascii ''177''))] = Inl ValueError \<and>
   script 1000 [Row (Some ''Bones'') (Some 2005) (StrV (ascii ''unknown'')),
                Row (Some ''House'') (Some 2004) (StrV (ascii ''177''))] = Inl ValueError"
proof -
  let ?rows = "[Row (Some ''Bones'') (Some 2005) (StrV (ascii ''unknown'')),
                Row (Some ''House'') (Some 2004) (StrV (ascii ''177''))]"
  have h1: "(1, Row (Some ''Bones'') (Some 2005) (StrV (ascii ''unknown''))) \<in> set (sorted_shows ?rows)"
    by code_simp
  have h2: "py_int (ascii ''unknown'') = None" by code_simp
  from non_numeric_text_raises [where room = 1000, OF h1 _ h2]
  obtain e where e: "cleaned ?rows = Inl e" "script 1000 ?rows = Inl e" by auto
  have "cleaned ?rows = Inl ValueError" by code_simp
  with e h1 h2 show ?thesis by simp
qed

subsection \<open>C10: nothing is made up\<close>

text \<open>
  C10.  Whenever the pipeline completes, every record of the result has the title and
  the year of an input record and the converted episode count of that record; more
  precisely, the result is obtained from some of the input rows, each taken at most as
  often as it occurs in the input, by converting their episode counts.
\<close>

theorem cleaned_rows_come_from_input:
  assumes "cleaned rows = Inr out"
  shows "(\<forall>o' \<in> set (map snd out). \<exists>r \<in> set rows. converted r o') \<and>
         (\<exists>kept. mset kept \<subseteq># mset rows \<and> list_all2 converted kept (map snd out))"
proof
  show "\<forall>o' \<in> set (map snd out). \<exists>r \<in> set rows. converted r o'"
  proof
    fix o'
    assume "o' \<in> set (map snd out)"
    from source_row [OF assms this]
    obtain i r where "(i, r) \<in> set (removed_duplicates rows)" and c: "converted r o'" by blast
    then have "r \<in> set rows" by (simp add: set_removed_duplicates)
    with c show "\<exists>r \<in> set rows. converted r o'" ..
  qed
next
  let ?kept = "map snd (sorted_shows rows)"
  have "mset ?kept = mset (map snd (removed_duplicates rows))"
    by (simp only: rows_sorted_shows mset_map mset_sort_values)
  then have "mset ?kept \<subseteq># mset rows"
    by (simp only: mset_rows_removed_duplicates)
  moreover from cleaned_converted [OF assms]
  have "list_all2 converted ?kept (map snd out)" by simp
  ultimately show "\<exists>kept. mset kept \<subseteq># mset rows \<and> list_all2 converted kept (map snd out)"
    by blast
qed

theorem cleaned_rows_come_from_input_witness:
  "cleaned [Row (Some ''Oz'') (Some 1997) (FloatV (-5 / 2)), Row (Some ''Oz'') (Some 1998) (FloatV 8),
            Row (Some ''Rome'') (Some 2005) (FloatV (45 / 2))]
     = Inr [(0, Row (Some ''Oz'') (Some 1997) (- 2)), (1, Row (Some ''Rome'') (Some 2005) 22)] \<and>
   (\<exists>r \<in> set [Row (Some ''Oz'') (Some 1997) (FloatV (-5 / 2)), Row (Some ''Oz'') (Some 1998) (FloatV 8),
                 Row (Some ''Rome'') (Some 2005) (FloatV (45 / 2))].
      converted r (Row (Some ''Oz'') (Some 1997) (- 2))) \<and>
   (\<exists>r \<in> set [Row (Some ''Oz'') (Some 1997) (FloatV (-5 / 2)), Row (Some ''Oz'') (Some 1998) (FloatV 8),
                 Row (Some ''Rome'') (Some 2005) (FloatV (45 / 2))].
      converted r (Row (Some ''Rome'') (Some 2005) 22))"
proof -
  let ?rows = "[Row (Some ''Oz'') (Some 1997) (FloatV (-5 / 2)), Row (Some ''Oz'') (Some 1998) (FloatV 8),
                Row (Some ''Rome'') (Some 2005) (FloatV (45 / 2))]"
  let ?out = "[(0 :: nat, Row (Some ''Oz'') (Some 1997) (- 2 :: 64 word)),
               (1, Row (Some ''Rome'') (Some 2005) 22)]"
  have h: "cleaned ?rows = Inr ?out"
    by code_simp
  from cleaned_rows_come_from_input [OF h]
  have "\<forall>o' \<in> set (map snd ?out). \<exists>r \<in> set ?rows. converted r o'" by (rule conjunct1)
  then have "(\<exists>r \<in> set ?rows. converted r (Row (Some ''Oz'') (Some 1997) (- 2))) \<and>
             (\<exists>r \<in> set ?rows. converted r (Row (Some ''Rome'') (Some 2005) 22))"
    by (simp only: list.map list.set snd_conv ball_simps insert_iff empty_iff)
  with h show ?thesis by (simp only:)
qed

end
